theory Spec2Isabelle
  imports Main "HOL-Library.Word" "HOL-Library.Multiset"
begin

unbundle bit_operations_syntax

section \<open>Guest linear memory\<close>

text \<open>
  The guest module is a wasm32 instance: pointers are 32 bits wide, exported functions
  exchange 64-bit values, and the linear memory is a byte buffer that the host reads and
  writes through bounds-checked accessors. An access is accepted exactly when the whole
  range lies inside the buffer; a rejected write leaves the buffer as it is, a rejected
  read yields the zero value together with \<open>False\<close>.
\<close>

type_synonym byte = "8 word"
type_synonym uint32 = "32 word"
type_synonym int32 = "32 word"
type_synonym uint64 = "64 word"

definition hasSize :: "byte list \<Rightarrow> uint32 \<Rightarrow> nat \<Rightarrow> bool" where
  "hasSize buf offset byteCount = (unat offset + byteCount \<le> length buf)"

definition ReadByte :: "byte list \<Rightarrow> uint32 \<Rightarrow> byte \<times> bool" where
  "ReadByte buf offset =
     (if hasSize buf offset 1 then (buf ! unat offset, True) else (0, False))"

definition Read :: "byte list \<Rightarrow> uint32 \<Rightarrow> uint32 \<Rightarrow> byte list \<times> bool" where
  "Read buf offset byteCount =
     (if hasSize buf offset (unat byteCount)
      then (take (unat byteCount) (drop (unat offset) buf), True)
      else ([], False))"

definition Write :: "byte list \<Rightarrow> uint32 \<Rightarrow> byte list \<Rightarrow> byte list \<times> bool" where
  "Write buf offset val =
     (if hasSize buf offset (length val)
      then (take (unat offset) buf @ val @ drop (unat offset + length val) buf, True)
      else (buf, False))"

text \<open>Little-endian encoding of a word in \<open>n\<close> bytes, and its decoding.\<close>

fun le_bytes :: "nat \<Rightarrow> 'a::len word \<Rightarrow> byte list" where
  "le_bytes 0 v = []"
| "le_bytes (Suc n) v = ucast v # le_bytes n (drop_bit 8 v)"

fun le_word :: "byte list \<Rightarrow> 'a::len word" where
  "le_word [] = 0"
| "le_word (b # bs) = ucast b OR push_bit 8 (le_word bs)"

definition WriteUint32Le :: "byte list \<Rightarrow> uint32 \<Rightarrow> uint32 \<Rightarrow> byte list \<times> bool" where
  "WriteUint32Le buf offset v = Write buf offset (le_bytes 4 v)"

definition WriteUint64Le :: "byte list \<Rightarrow> uint32 \<Rightarrow> uint64 \<Rightarrow> byte list \<times> bool" where
  "WriteUint64Le buf offset v = Write buf offset (le_bytes 8 v)"

definition ReadUint64Le :: "byte list \<Rightarrow> uint32 \<Rightarrow> uint64 \<times> bool" where
  "ReadUint64Le buf offset =
     (if hasSize buf offset 8
      then (le_word (take 8 (drop (unat offset) buf)), True)
      else (0, False))"

section \<open>Module instance, checkpoints and session\<close>

text \<open>
  The instance as the host sees it: its memory, the two exported globals
  \<open>__stack_pointer\<close> (mutable) and \<open>__heap_base\<close>, and whether the engine has
  released it.
\<close>

record module =
  Memory :: "byte list"
  stack_pointer :: uint32
  heap_base :: uint32
  closed :: bool

text \<open>An engine snapshot is an opaque handle; it is identified here by a number.\<close>

type_synonym Snapshot = nat

record checkpoint =
  snapshot :: Snapshot
  stackPointer :: uint32
  cstack :: "byte list"

record dashState =
  checkpoints :: "checkpoint list"

section \<open>The setjmp and longjmp imports\<close>

text \<open>
  \<open>setjmpHost\<close> receives the snapshot the engine has just taken of the running call. It
  copies the region from the stack pointer up to the heap base when that region is
  non-empty and readable, appends the checkpoint, stores the new index in the jump
  buffer (the outcome of that store is not inspected) and returns 0.
\<close>

definition setjmpHost ::
  "Snapshot \<Rightarrow> module \<times> dashState \<Rightarrow> uint32 \<Rightarrow> int32 \<times> module \<times> dashState" where
  "setjmpHost snap ms bufPtr =
     (case ms of (m, st) \<Rightarrow>
        let sp = stack_pointer m;
            heapBase = heap_base m;
            cs = (if sp < heapBase
                  then (case Read (Memory m) sp (heapBase - sp) of
                          (view, ok) \<Rightarrow> if ok then view else [])
                  else []);
            idx = length (checkpoints st);
            st' = st\<lparr>checkpoints := checkpoints st @
                    [\<lparr>snapshot = snap, stackPointer = sp, cstack = cs\<rparr>]\<rparr>;
            m' = m\<lparr>Memory := fst (WriteUint64Le (Memory m) bufPtr (of_nat idx))\<rparr>
        in (0, m', st'))"

text \<open>
  How a call of the longjmp import ends. It has no result to hand back: either the
  indexing of the checkpoint slice fails (a run-time panic of the host function, raised
  before anything has been touched), or the snapshot's restore operation takes over,
  resuming the capture site with the given results.
\<close>

datatype control =
    Returned
  | IndexOutOfRange
  | Restore Snapshot "uint64 list"

definition longjmpHost ::
  "module \<times> dashState \<Rightarrow> uint32 \<Rightarrow> int32 \<Rightarrow> control \<times> module \<times> dashState" where
  "longjmpHost ms bufPtr val0 =
     (case ms of (m, st) \<Rightarrow>
        let idx = fst (ReadUint64Le (Memory m) bufPtr);
            val = (if val0 = 0 then 1 else val0)
        in if length (checkpoints st) \<le> unat idx then (IndexOutOfRange, m, st)
           else
             let cp = checkpoints st ! unat idx;
                 m1 = m\<lparr>stack_pointer := stackPointer cp\<rparr>;
                 m2 = (if 0 < length (cstack cp)
                       then m1\<lparr>Memory := fst (Write (Memory m1) (stackPointer cp) (cstack cp))\<rparr>
                       else m1)
             in (Restore (snapshot cp) [ucast val], m2, st))"

text \<open>
  The value the capture site sees after a restore: the first restored result, read back
  as the 32-bit result of the setjmp import.
\<close>

fun observed :: "control \<Rightarrow> int32 option" where
  "observed (Restore s (r # rs)) = Some (ucast r)"
| "observed _ = None"

section \<open>Strings and errors\<close>

text \<open>
  A host string is a sequence of bytes; \<open>bytes_of\<close> is the conversion to a byte slice
  and \<open>string_of\<close> the conversion back.
\<close>

definition bytes_of :: "string \<Rightarrow> byte list" where
  "bytes_of s = map (\<lambda>c. of_nat (of_char c)) s"

definition string_of :: "byte list \<Rightarrow> string" where
  "string_of bs = map (\<lambda>b. char_of (unat b)) bs"

text \<open>
  An error is either created by the host with a message, or handed back by the engine
  when a call of an exported function fails. \<open>Error\<close> is its message.
\<close>

datatype error = errors_New string | call_error string

fun Error :: "error \<Rightarrow> string" where
  "Error (errors_New msg) = msg"
| "Error (call_error msg) = msg"

section \<open>The session\<close>

text \<open>
  An exported guest function is opaque code: given its arguments it may change the
  instance and the checkpoint state (through the setjmp import) in any way, and it
  either fails or yields its first result. The exports are named as the guest binary
  names them.
\<close>

type_synonym Function =
  "uint64 list \<Rightarrow> module \<times> dashState \<Rightarrow> (error + uint64) \<times> module \<times> dashState"

type_synonym call = "string \<times> uint64 list \<times> (error + uint64)"

text \<open>
  The fields of the session follow the wrapper's struct, without the handle of the
  engine runtime, which no operation uses. The three optional exports may be absent.
  The last field, \<open>calls\<close>, is not part of the struct: it logs, in order, every
  invocation of an exported function made by the host, with its arguments and its
  outcome, so that what was called, and when, can be stated.
\<close>

record Dash =
  mod' :: module
  state :: dashState
  malloc :: Function
  free :: Function
  dashInit :: Function
  dashEval :: Function
  dashGetExitStatus :: "Function option"
  dashGetVar :: "Function option"
  dashSetVar :: "Function option"
  dashDestroy :: Function
  initialized :: bool
  calls :: "call list"

definition Call :: "Function \<Rightarrow> string \<Rightarrow> uint64 list \<Rightarrow> Dash \<Rightarrow> (error + uint64) \<times> Dash" where
  "Call f name args d =
     (case f args (mod' d, state d) of
        (r, m', st') \<Rightarrow> (r, d\<lparr>mod' := m', state := st', calls := calls d @ [(name, args, r)]\<rparr>))"

definition allocString :: "Dash \<Rightarrow> string \<Rightarrow> (error + uint32) \<times> Dash" where
  "allocString d s =
     (let b = bytes_of s in
      case Call (malloc d) ''malloc'' [of_nat (length b + 1)] d of
        (Inl err, d1) \<Rightarrow> (Inl err, d1)
      | (Inr r, d1) \<Rightarrow>
          let ptr = (ucast r :: uint32) in
          if ptr = 0 then (Inl (errors_New ''malloc returned null''), d1)
          else
            (case Write (Memory (mod' d1)) ptr (b @ [0]) of
               (buf, ok) \<Rightarrow>
                 if \<not> ok
                 then (Inl (errors_New ''failed to write string to memory''),
                       snd (Call (free d1) ''free'' [ucast ptr] d1))
                 else (Inr ptr, d1\<lparr>mod' := (mod' d1)\<lparr>Memory := buf\<rparr>\<rparr>)))"

definition freePtr :: "Dash \<Rightarrow> uint32 \<Rightarrow> Dash" where
  "freePtr d ptr = (if ptr \<noteq> 0 then snd (Call (free d) ''free'' [ucast ptr] d) else d)"

text \<open>
  The loops of \<open>Init\<close>: freeing a slice of pointers in order, marshalling the
  arguments one by one (on a failure the pointers obtained so far are freed), and
  storing the pointers into the argv array (the outcome of each store is not inspected).
\<close>

fun freePtrs :: "Dash \<Rightarrow> uint32 list \<Rightarrow> Dash" where
  "freePtrs d [] = d"
| "freePtrs d (ptr # ptrs) = freePtrs (freePtr d ptr) ptrs"

fun allocArgs :: "Dash \<Rightarrow> string list \<Rightarrow> uint32 list \<Rightarrow> (error + uint32 list) \<times> Dash" where
  "allocArgs d [] ptrs = (Inr ptrs, d)"
| "allocArgs d (arg # args) ptrs =
     (case allocString d arg of
        (Inl err, d1) \<Rightarrow> (Inl err, freePtrs d1 ptrs)
      | (Inr ptr, d1) \<Rightarrow> allocArgs d1 args (ptrs @ [ptr]))"

fun writeArgv :: "byte list \<Rightarrow> uint32 \<Rightarrow> nat \<Rightarrow> uint32 list \<Rightarrow> byte list" where
  "writeArgv buf argv i [] = buf"
| "writeArgv buf argv i (ptr # ptrs) =
     writeArgv (fst (WriteUint32Le buf (argv + of_nat (i * 4)) ptr)) argv (Suc i) ptrs"

definition Init :: "Dash \<Rightarrow> string list \<Rightarrow> error option \<times> Dash" where
  "Init d args0 =
     (if initialized d then (Some (errors_New ''dash already initialized''), d)
      else
        let args = (if length args0 = 0 then [''dash''] else args0);
            argc = length args
        in case allocArgs d args [] of
             (Inl err, d1) \<Rightarrow> (Some err, d1)
           | (Inr ptrs, d1) \<Rightarrow>
               (case Call (malloc d1) ''malloc'' [of_nat (argc * 4)] d1 of
                  (Inl err, d2) \<Rightarrow> (Some err, freePtrs d2 ptrs)
                | (Inr r, d2) \<Rightarrow>
                    let argv = (ucast r :: uint32) in
                    if argv = 0
                    then (Some (errors_New ''malloc returned null for argv''), freePtrs d2 ptrs)
                    else
                      let d3 = d2\<lparr>mod' := (mod' d2)\<lparr>Memory :=
                                   writeArgv (Memory (mod' d2)) argv 0 ptrs\<rparr>\<rparr>
                      in case Call (dashInit d3) ''dash_init'' [of_nat argc, ucast argv] d3 of
                           (initResults, d4) \<Rightarrow>
                             let d5 = freePtrs (freePtr d4 argv) ptrs in
                             (case initResults of
                                Inl err \<Rightarrow>
                                  (Some (errors_New (''dash_init failed: '' @ Error err)), d5)
                              | Inr r0 \<Rightarrow>
                                  if (ucast r0 :: int32) \<noteq> 0
                                  then (Some (errors_New ''dash_init returned error''), d5)
                                  else (None, d5\<lparr>initialized := True\<rparr>))))"

text \<open>
  The deferred frees of the remaining operations run when the operation returns, in
  reverse order of their registration.
\<close>

definition Eval :: "Dash \<Rightarrow> string \<Rightarrow> (int \<times> error option) \<times> Dash" where
  "Eval d cmd =
     (if \<not> initialized d then ((- 1, Some (errors_New ''dash not initialized'')), d)
      else
        case allocString d cmd of
          (Inl err, d1) \<Rightarrow> ((- 1, Some err), d1)
        | (Inr cmdPtr, d1) \<Rightarrow>
            (case Call (dashEval d1) ''dash_eval'' [ucast cmdPtr, of_nat (length cmd)] d1 of
               (Inl err, d2) \<Rightarrow>
                 ((- 1, Some (errors_New (''dash_eval failed: '' @ Error err))), freePtr d2 cmdPtr)
             | (Inr r, d2) \<Rightarrow> ((sint (ucast r :: int32), None), freePtr d2 cmdPtr)))"

definition GetExitStatus :: "Dash \<Rightarrow> (int \<times> error option) \<times> Dash" where
  "GetExitStatus d =
     (if \<not> initialized d then ((- 1, Some (errors_New ''dash not initialized'')), d)
      else
        case dashGetExitStatus d of
          None \<Rightarrow> ((- 1, Some (errors_New ''dash_get_exitstatus not available'')), d)
        | Some f \<Rightarrow>
            (case Call f ''dash_get_exitstatus'' [] d of
               (Inl err, d1) \<Rightarrow> ((- 1, Some err), d1)
             | (Inr r, d1) \<Rightarrow> ((sint (ucast r :: int32), None), d1)))"

text \<open>
  \<open>readCString\<close> scans from the given address with a 32-bit counter that wraps around,
  until a byte cannot be read or is zero. In a memory of full size without a zero byte
  the scan does not end, which is the value \<open>None\<close>.
\<close>

partial_function (option) scan ::
  "byte list \<Rightarrow> uint32 \<Rightarrow> uint32 \<Rightarrow> byte list \<Rightarrow> byte list option" where
  [code]: "scan mem ptr i buf =
     (case ReadByte mem (ptr + i) of
        (b, ok) \<Rightarrow> if \<not> ok \<or> b = 0 then Some buf else scan mem ptr (i + 1) (buf @ [b]))"

definition readCString :: "Dash \<Rightarrow> uint32 \<Rightarrow> string option" where
  "readCString d ptr = map_option string_of (scan (Memory (mod' d)) ptr 0 [])"

definition GetVar :: "Dash \<Rightarrow> string \<Rightarrow> ((string \<times> error option) \<times> Dash) option" where
  "GetVar d name =
     (if \<not> initialized d then Some (('''', Some (errors_New ''dash not initialized'')), d)
      else
        case dashGetVar d of
          None \<Rightarrow> Some (('''', Some (errors_New ''dash_getvar not available'')), d)
        | Some f \<Rightarrow>
            (case allocString d name of
               (Inl err, d1) \<Rightarrow> Some (('''', Some err), d1)
             | (Inr namePtr, d1) \<Rightarrow>
                 (case Call f ''dash_getvar'' [ucast namePtr] d1 of
                    (Inl err, d2) \<Rightarrow> Some (('''', Some err), freePtr d2 namePtr)
                  | (Inr r, d2) \<Rightarrow>
                      let valPtr = (ucast r :: uint32) in
                      if valPtr = 0 then Some (('''', None), freePtr d2 namePtr)
                      else
                        (case readCString d2 valPtr of
                           None \<Rightarrow> None
                         | Some v \<Rightarrow> Some ((v, None), freePtr d2 namePtr)))))"

definition SetVar :: "Dash \<Rightarrow> string \<Rightarrow> string \<Rightarrow> error option \<times> Dash" where
  "SetVar d name val =
     (if \<not> initialized d then (Some (errors_New ''dash not initialized''), d)
      else
        case dashSetVar d of
          None \<Rightarrow> (Some (errors_New ''dash_setvar not available''), d)
        | Some f \<Rightarrow>
            (case allocString d name of
               (Inl err, d1) \<Rightarrow> (Some err, d1)
             | (Inr namePtr, d1) \<Rightarrow>
                 (case allocString d1 val of
                    (Inl err, d2) \<Rightarrow> (Some err, freePtr d2 namePtr)
                  | (Inr valPtr, d2) \<Rightarrow>
                      (case Call f ''dash_setvar'' [ucast namePtr, ucast valPtr] d2 of
                         (Inl err, d3) \<Rightarrow> (Some err, freePtr (freePtr d3 valPtr) namePtr)
                       | (Inr r, d3) \<Rightarrow>
                           if (ucast r :: int32) \<noteq> 0
                           then (Some (errors_New ''dash_setvar failed''),
                                 freePtr (freePtr d3 valPtr) namePtr)
                           else (None, freePtr (freePtr d3 valPtr) namePtr)))))"

text \<open>
  Releasing the instance is the engine's business: it marks the instance closed and
  reports no error, and releasing a released instance changes nothing.
\<close>

definition mod_Close :: "module \<Rightarrow> error option \<times> module" where
  "mod_Close m = (None, m\<lparr>closed := True\<rparr>)"

definition Close :: "Dash \<Rightarrow> error option \<times> Dash" where
  "Close d =
     (let d1 = (if initialized d
                then (snd (Call (dashDestroy d) ''dash_destroy'' [] d))\<lparr>initialized := False\<rparr>
                else d)
      in case mod_Close (mod' d1) of (err, m') \<Rightarrow> (err, d1\<lparr>mod' := m'\<rparr>))"

section \<open>Allocations and releases in the call log\<close>

text \<open>
  A logged call allocates when it is a call of \<open>malloc\<close> that succeeded with a non-null
  pointer; it releases when it is a call of \<open>free\<close>, whatever that call answered (the
  host never looks at the answer).
\<close>

fun allocation :: "call \<Rightarrow> uint32 list" where
  "allocation (name, args, Inr r) =
     (if name = ''malloc'' \<and> (ucast r :: uint32) \<noteq> 0 then [ucast r] else [])"
| "allocation (name, args, Inl err) = []"

fun release :: "call \<Rightarrow> uint32 list" where
  "release (name, args, r) = (if name = ''free'' then map ucast args else [])"

definition allocated :: "call list \<Rightarrow> uint32 list" where
  "allocated cs = concat (map allocation cs)"

definition released :: "call list \<Rightarrow> uint32 list" where
  "released cs = concat (map release cs)"

section \<open>Sample instances\<close>

text \<open>
  Concrete values at which the results below are instantiated: a guest whose exports
  answer a fixed value and touch nothing, a memory of one page (64 KiB) of zero bytes,
  an instance whose stack region lies below its heap base and one where it does not,
  a checkpoint state holding one checkpoint, and a session that has not been
  initialised.
\<close>

definition stub :: "uint64 \<Rightarrow> Function" where
  "stub r args ms = (Inr r, ms)"

definition page :: "byte list" where
  "page = replicate 65536 0"

definition module0 :: module where
  "module0 = \<lparr>Memory = page, stack_pointer = 4096, heap_base = 8192, closed = False\<rparr>"

definition module1 :: module where
  "module1 = \<lparr>Memory = page, stack_pointer = 8192, heap_base = 4096, closed = False\<rparr>"

definition state1 :: dashState where
  "state1 = \<lparr>checkpoints = [\<lparr>snapshot = 7, stackPointer = 4096, cstack = [1, 2]\<rparr>]\<rparr>"

definition session0 :: Dash where
  "session0 =
     \<lparr>mod' = module0, state = \<lparr>checkpoints = []\<rparr>,
      malloc = stub 16384, free = stub 0, dashInit = stub 0, dashEval = stub 0,
      dashGetExitStatus = Some (stub 0), dashGetVar = Some (stub 0),
      dashSetVar = Some (stub 0), dashDestroy = stub 0,
      initialized = False, calls = []\<rparr>"

section \<open>Facts about memory accesses\<close>

lemma length_le_bytes: "length (le_bytes n v) = n"
  by (induction n arbitrary: v) simp_all

lemma le_word_le_bytes:
  "(le_word (le_bytes n v) :: 'a::len word) = take_bit (8 * n) (v :: 'a word)"
proof (induction n arbitrary: v)
  case 0
  show ?case by simp
next
  case (Suc n)
  show ?case
    apply (simp add: Suc)
    apply (rule bit_eqI)
    apply (auto simp add: bit_simps)
    done
qed

lemma le_word_zeros: "le_word (replicate n 0) = 0"
  by (induction n) simp_all

lemma le_word_le_bytes_64: "le_word (le_bytes 8 (v :: uint64)) = v"
  by (simp add: le_word_le_bytes take_bit_word_eq_self)

lemma ucast_32_64_32: "(ucast (ucast (v :: uint32) :: uint64) :: uint32) = v"
  by (rule bit_eqI) (auto simp: bit_simps)

lemma length_Write: "length (fst (Write buf offset val)) = length buf"
  by (auto simp: Write_def hasSize_def)

lemma take_drop_Write:
  "hasSize buf offset (length val) \<Longrightarrow>
     take (length val) (drop (unat offset) (fst (Write buf offset val))) = val"
  by (simp add: Write_def hasSize_def)

lemma Write_nth:
  assumes "Write buf p val = (buf', True)" "i < length val"
  shows "buf' ! (unat p + i) = val ! i" "unat p + length val \<le> length buf'"
  using assms by (auto simp: Write_def hasSize_def nth_append split: if_splits)

lemma WriteUint64Le_rejected:
  "\<not> hasSize buf offset 8 \<Longrightarrow> fst (WriteUint64Le buf offset v) = buf"
  by (simp add: WriteUint64Le_def Write_def length_le_bytes)

lemma stored_uint64:
  assumes "hasSize buf offset 8"
  shows "take 8 (drop (unat offset) (fst (WriteUint64Le buf offset v))) = le_bytes 8 v"
    and "hasSize (fst (WriteUint64Le buf offset v)) offset 8"
proof -
  have len: "length (le_bytes 8 v) = 8" by (rule length_le_bytes)
  have hs: "hasSize buf offset (length (le_bytes 8 v))" using assms len by simp
  show "take 8 (drop (unat offset) (fst (WriteUint64Le buf offset v))) = le_bytes 8 v"
    using take_drop_Write [OF hs] len by (simp add: WriteUint64Le_def)
  show "hasSize (fst (WriteUint64Le buf offset v)) offset 8"
    using assms by (simp add: hasSize_def WriteUint64Le_def length_Write)
qed

lemma ReadUint64Le_WriteUint64Le:
  "hasSize buf offset 8 \<Longrightarrow> ReadUint64Le (fst (WriteUint64Le buf offset v)) offset = (v, True)"
  by (simp add: ReadUint64Le_def stored_uint64 le_word_le_bytes_64)

lemma Read_WriteUint64Le:
  "hasSize buf offset 8 \<Longrightarrow>
     Read (fst (WriteUint64Le buf offset v)) offset 8 = (le_bytes 8 v, True)"
  by (simp add: Read_def stored_uint64)

section \<open>The jump bridge\<close>

text \<open>
  A capture followed by a restore through the same jump buffer resumes the captured
  snapshot, provided the buffer lies inside guest memory.
\<close>

lemma capture_then_restore:
  assumes "hasSize (Memory m) bufPtr 8" and "length (checkpoints st) < 2 ^ 64"
  shows "fst (longjmpHost (snd (setjmpHost snap (m, st) bufPtr)) bufPtr val)
           = Restore snap [ucast (if val = 0 then 1 else val)]"
proof -
  have "unat (of_nat (length (checkpoints st)) :: uint64) = length (checkpoints st)"
    using assms(2) by (simp add: unat_of_nat)
  then show ?thesis
    using assms(1)
    by (simp add: setjmpHost_def longjmpHost_def Let_def ReadUint64Le_WriteUint64Le)
qed

text \<open>
  C2. A call of the longjmp import whose jump buffer yields the index of an existing
  checkpoint ends in the restore of that checkpoint's snapshot: the capture site sees 1
  when the value passed is 0 and sees the value itself otherwise, and the call does not
  return to its caller.
\<close>

theorem longjmpHost_restores_value:
  assumes "unat (fst (ReadUint64Le (Memory m) bufPtr)) < length (checkpoints st)"
  shows "fst (longjmpHost (m, st) bufPtr val) =
           Restore (snapshot (checkpoints st ! unat (fst (ReadUint64Le (Memory m) bufPtr))))
                   [ucast (if val = 0 then 1 else val)] \<and>
         observed (fst (longjmpHost (m, st) bufPtr val)) = Some (if val = 0 then 1 else val) \<and>
         fst (longjmpHost (m, st) bufPtr val) \<noteq> Returned"
  using assms by (simp add: longjmpHost_def Let_def ucast_32_64_32)

theorem longjmpHost_restores_value_witness:
  "unat (fst (ReadUint64Le (Memory module0) 1024)) < length (checkpoints state1) \<and>
   fst (longjmpHost (module0, state1) 1024 0) = Restore 7 [1] \<and>
   observed (fst (longjmpHost (module0, state1) 1024 0)) = Some 1 \<and>
   observed (fst (longjmpHost (module0, state1) 1024 5)) = Some 5 \<and>
   fst (longjmpHost (module0, state1) 1024 0) \<noteq> Returned"
  using longjmpHost_restores_value [of module0 1024 state1 0]
        longjmpHost_restores_value [of module0 1024 state1 5]
  by (simp add: module0_def page_def state1_def ReadUint64Le_def hasSize_def le_word_zeros)

text \<open>
  C3, as the code has it. A call of the setjmp import in a session holding \<open>n\<close>
  checkpoints returns 0 and appends exactly one checkpoint, at index \<open>n\<close>, carrying the
  snapshot just taken. When the eight bytes of the jump buffer lie inside guest memory,
  they hold \<open>n\<close> in little-endian order afterwards; when they do not, the store is
  rejected and guest memory is left as it was.
\<close>

theorem setjmpHost_appends_and_stores:
  "fst (setjmpHost snap (m, st) bufPtr) = 0 \<and>
   (\<exists>cp. checkpoints (snd (snd (setjmpHost snap (m, st) bufPtr))) = checkpoints st @ [cp] \<and>
         snapshot cp = snap \<and>
         checkpoints (snd (snd (setjmpHost snap (m, st) bufPtr))) ! length (checkpoints st) = cp) \<and>
   (hasSize (Memory m) bufPtr 8 \<longrightarrow>
      Read (Memory (fst (snd (setjmpHost snap (m, st) bufPtr)))) bufPtr 8
        = (le_bytes 8 (of_nat (length (checkpoints st)) :: uint64), True) \<and>
      ReadUint64Le (Memory (fst (snd (setjmpHost snap (m, st) bufPtr)))) bufPtr
        = (of_nat (length (checkpoints st)), True)) \<and>
   (\<not> hasSize (Memory m) bufPtr 8 \<longrightarrow>
      Memory (fst (snd (setjmpHost snap (m, st) bufPtr))) = Memory m)"
  by (simp add: setjmpHost_def Let_def ReadUint64Le_WriteUint64Le Read_WriteUint64Le
        WriteUint64Le_rejected)

theorem setjmpHost_appends_and_stores_witness:
  "hasSize (Memory module0) 1024 8 \<and>
   fst (setjmpHost 9 (module0, state1) 1024) = 0 \<and>
   ReadUint64Le (Memory (fst (snd (setjmpHost 9 (module0, state1) 1024)))) 1024 = (1, True) \<and>
   \<not> hasSize (Memory module0) 65532 8 \<and>
   Memory (fst (snd (setjmpHost 9 (module0, state1) 65532))) = Memory module0"
  using setjmpHost_appends_and_stores [of 9 module0 state1 1024]
        setjmpHost_appends_and_stores [of 9 module0 state1 65532]
  by (simp add: module0_def page_def state1_def hasSize_def)

text \<open>
  Without the condition on the jump buffer the statement fails: with one page of
  memory and the buffer at its last four bytes, the call still appends checkpoint 1 and
  returns 0, but memory is unchanged, the eight bytes cannot be read back, and no byte
  of memory holds the index.
\<close>

theorem setjmpHost_store_rejected:
  "length (checkpoints state1) = 1 \<and>
   fst (setjmpHost 9 (module0, state1) 65532) = 0 \<and>
   Memory (fst (snd (setjmpHost 9 (module0, state1) 65532))) = Memory module0 \<and>
   Read (Memory (fst (snd (setjmpHost 9 (module0, state1) 65532)))) 65532 8 = ([], False) \<and>
   1 \<notin> set (Memory (fst (snd (setjmpHost 9 (module0, state1) 65532))))"
  by (simp add: setjmpHost_def module0_def state1_def page_def WriteUint64Le_def Write_def
        Read_def hasSize_def length_le_bytes Let_def)

text \<open>
  C7. When the index read from the jump buffer is not below the number of checkpoints,
  the call of the longjmp import ends in the run-time panic of the slice indexing:
  nothing is restored, the instance (stack pointer and memory included) and the
  checkpoints are exactly as before, and the call does not return normally.
\<close>

theorem longjmpHost_invalid_index:
  assumes "length (checkpoints st) \<le> unat (fst (ReadUint64Le (Memory m) bufPtr))"
  shows "longjmpHost (m, st) bufPtr val = (IndexOutOfRange, m, st)"
  using assms by (simp add: longjmpHost_def Let_def)

theorem longjmpHost_invalid_index_witness:
  "length (checkpoints state1)
     \<le> unat (fst (ReadUint64Le (Memory (module0\<lparr>Memory := 3 # page\<rparr>)) 0)) \<and>
   longjmpHost (module0\<lparr>Memory := 3 # page\<rparr>, state1) 0 5
     = (IndexOutOfRange, module0\<lparr>Memory := 3 # page\<rparr>, state1)"
  using longjmpHost_invalid_index [of state1 "module0\<lparr>Memory := 3 # page\<rparr>" 0 5]
  by (simp add: module0_def page_def state1_def ReadUint64Le_def hasSize_def le_word_zeros)

text \<open>
  C10, as the code has it. When the stack pointer is not below the heap base, or the
  region between them cannot be read, the setjmp import still returns 0 and still
  appends a checkpoint, with the current stack pointer and an empty stack copy. The
  index is stored in the jump buffer under the same condition as on the ordinary path:
  when the buffer's eight bytes lie inside guest memory.
\<close>

theorem setjmpHost_without_stack_copy:
  assumes "heap_base m \<le> stack_pointer m \<or>
           \<not> snd (Read (Memory m) (stack_pointer m) (heap_base m - stack_pointer m))"
  shows "fst (setjmpHost snap (m, st) bufPtr) = 0 \<and>
         checkpoints (snd (snd (setjmpHost snap (m, st) bufPtr)))
           = checkpoints st @ [\<lparr>snapshot = snap, stackPointer = stack_pointer m, cstack = []\<rparr>] \<and>
         (hasSize (Memory m) bufPtr 8 \<longrightarrow>
            ReadUint64Le (Memory (fst (snd (setjmpHost snap (m, st) bufPtr)))) bufPtr
              = (of_nat (length (checkpoints st)), True))"
  using assms
  by (auto simp: setjmpHost_def Let_def ReadUint64Le_WriteUint64Le split: prod.splits)

theorem setjmpHost_without_stack_copy_witness:
  "heap_base module1 \<le> stack_pointer module1 \<and>
   hasSize (Memory module1) 1024 8 \<and>
   fst (setjmpHost 9 (module1, state1) 1024) = 0 \<and>
   checkpoints (snd (snd (setjmpHost 9 (module1, state1) 1024)))
     = checkpoints state1 @ [\<lparr>snapshot = 9, stackPointer = 8192, cstack = []\<rparr>] \<and>
   ReadUint64Le (Memory (fst (snd (setjmpHost 9 (module1, state1) 1024)))) 1024 = (1, True)"
  using setjmpHost_without_stack_copy [of module1 9 state1 1024]
  by (simp add: module1_def page_def state1_def hasSize_def)

text \<open>
  Without the condition on the jump buffer the statement fails on this path too: the
  checkpoint is appended and 0 returned, but memory is unchanged and holds no index.
\<close>

theorem setjmpHost_without_stack_copy_rejected:
  "heap_base module1 \<le> stack_pointer module1 \<and>
   length (checkpoints state1) = 1 \<and>
   Memory (fst (snd (setjmpHost 9 (module1, state1) 65532))) = Memory module1 \<and>
   ReadUint64Le (Memory (fst (snd (setjmpHost 9 (module1, state1) 65532)))) 65532 = (0, False) \<and>
   1 \<notin> set (Memory (fst (snd (setjmpHost 9 (module1, state1) 65532))))"
  by (simp add: setjmpHost_def module1_def state1_def page_def WriteUint64Le_def Write_def
        ReadUint64Le_def hasSize_def length_le_bytes Let_def)

section \<open>What a call changes\<close>

lemma Call_eqD:
  "Call f name args d = (r, d') \<Longrightarrow>
     \<exists>m' st'. d' = d\<lparr>mod' := m', state := st', calls := calls d @ [(name, args, r)]\<rparr>"
  by (auto simp: Call_def split: prod.splits)

lemma Call_initialized: "Call f name args d = (r, d') \<Longrightarrow> initialized d' = initialized d"
  by (auto dest!: Call_eqD)

lemma Call_calls: "Call f name args d = (r, d') \<Longrightarrow> calls d' = calls d @ [(name, args, r)]"
  by (auto dest!: Call_eqD)

lemma freePtr_initialized: "initialized (freePtr d ptr) = initialized d"
proof (cases "Call (free d) ''free'' [ucast ptr] d")
  case (Pair r d')
  then show ?thesis by (simp add: freePtr_def Call_initialized)
qed

lemma freePtrs_initialized: "initialized (freePtrs d ptrs) = initialized d"
  by (induction ptrs arbitrary: d) (simp_all add: freePtr_initialized)

lemma allocString_initialized: "allocString d s = (r, d') \<Longrightarrow> initialized d' = initialized d"
  by (auto simp: allocString_def Let_def snd_def
      split: prod.splits sum.splits if_splits dest!: Call_eqD)

lemma allocArgs_initialized:
  "allocArgs d args ptrs = (r, d') \<Longrightarrow> initialized d' = initialized d"
proof (induction args arbitrary: d ptrs)
  case Nil
  then show ?case by simp
next
  case (Cons a args)
  then show ?case
    by (auto split: prod.splits sum.splits dest!: allocString_initialized
        simp: freePtrs_initialized)
qed

section \<open>The paths through Init\<close>

text \<open>
  On a session that is not initialised, \<open>Init\<close> ends in one of four ways: marshalling
  an argument fails; the call allocating the argv array fails; that call answers the
  null pointer; or the guest's init export is invoked, after which everything is freed
  and the flag is set exactly when the export answered 0.
\<close>

lemma Init_cases:
  assumes ninit: "\<not> initialized d"
  obtains
    (marshal) err d1 where
      "allocArgs d (if length args = 0 then [''dash''] else args) [] = (Inl err, d1)"
      "Init d args = (Some err, d1)"
  | (argv_call) ptrs d1 err d2 where
      "allocArgs d (if length args = 0 then [''dash''] else args) [] = (Inr ptrs, d1)"
      "Call (malloc d1) ''malloc''
         [of_nat (length (if length args = 0 then [''dash''] else args) * 4)] d1 = (Inl err, d2)"
      "Init d args = (Some err, freePtrs d2 ptrs)"
  | (argv_null) ptrs d1 r d2 where
      "allocArgs d (if length args = 0 then [''dash''] else args) [] = (Inr ptrs, d1)"
      "Call (malloc d1) ''malloc''
         [of_nat (length (if length args = 0 then [''dash''] else args) * 4)] d1 = (Inr r, d2)"
      "(ucast r :: uint32) = 0"
      "Init d args = (Some (errors_New ''malloc returned null for argv''), freePtrs d2 ptrs)"
  | (invoked) ptrs d1 r d2 d3 res d4 where
      "allocArgs d (if length args = 0 then [''dash''] else args) [] = (Inr ptrs, d1)"
      "Call (malloc d1) ''malloc''
         [of_nat (length (if length args = 0 then [''dash''] else args) * 4)] d1 = (Inr r, d2)"
      "(ucast r :: uint32) \<noteq> 0"
      "d3 = d2\<lparr>mod' := (mod' d2)\<lparr>Memory := writeArgv (Memory (mod' d2)) (ucast r) 0 ptrs\<rparr>\<rparr>"
      "Call (dashInit d3) ''dash_init''
         [of_nat (length (if length args = 0 then [''dash''] else args)),
          ucast (ucast r :: uint32)] d3
         = (res, d4)"
      "Init d args =
         (case res of
            Inl err \<Rightarrow> Some (errors_New (''dash_init failed: '' @ Error err))
          | Inr r0 \<Rightarrow> if (ucast r0 :: int32) \<noteq> 0
                      then Some (errors_New ''dash_init returned error'') else None,
          (freePtrs (freePtr d4 (ucast r)) ptrs)
            \<lparr>initialized := (case res of Inl err \<Rightarrow> False | Inr r0 \<Rightarrow> (ucast r0 :: int32) = 0)\<rparr>)"
proof -
  let ?args = "if length args = 0 then [''dash''] else args"
  obtain ra d1 where A: "allocArgs d ?args [] = (ra, d1)" by (cases "allocArgs d ?args []")
  have i1: "\<not> initialized d1" using allocArgs_initialized [OF A] ninit by simp
  show thesis
  proof (cases ra)
    case (Inl err)
    with A ninit have "Init d args = (Some err, d1)" by (simp add: Init_def Let_def)
    moreover from A Inl have "allocArgs d ?args [] = (Inl err, d1)" by simp
    ultimately show thesis using marshal by blast
  next
    case (Inr ptrs)
    obtain rm d2 where M: "Call (malloc d1) ''malloc'' [of_nat (length ?args * 4)] d1 = (rm, d2)"
      by (cases "Call (malloc d1) ''malloc'' [of_nat (length ?args * 4)] d1")
    have i2: "\<not> initialized d2" using Call_initialized [OF M] i1 by simp
    from A Inr have A': "allocArgs d ?args [] = (Inr ptrs, d1)" by simp
    show thesis
    proof (cases rm)
      case (Inl err)
      with A Inr M ninit have "Init d args = (Some err, freePtrs d2 ptrs)"
        by (simp add: Init_def Let_def)
      moreover from M Inl
      have "Call (malloc d1) ''malloc'' [of_nat (length ?args * 4)] d1 = (Inl err, d2)" by simp
      ultimately show thesis using argv_call A' by blast
    next
      case r: (Inr r)
      from M r
      have M': "Call (malloc d1) ''malloc'' [of_nat (length ?args * 4)] d1 = (Inr r, d2)" by simp
      show thesis
      proof (cases "(ucast r :: uint32) = 0")
        case True
        with A Inr M r ninit
        have "Init d args = (Some (errors_New ''malloc returned null for argv''), freePtrs d2 ptrs)"
          by (simp add: Init_def Let_def)
        then show thesis using argv_null A' M' True by blast
      next
        case False
        define d3 where
          "d3 = d2\<lparr>mod' := (mod' d2)\<lparr>Memory := writeArgv (Memory (mod' d2)) (ucast r) 0 ptrs\<rparr>\<rparr>"
        obtain res d4 where I: "Call (dashInit d3) ''dash_init''
            [of_nat (length ?args), ucast (ucast r :: uint32)] d3 = (res, d4)"
          by (cases "Call (dashInit d3) ''dash_init''
                [of_nat (length ?args), ucast (ucast r :: uint32)] d3")
        have i4: "\<not> initialized d4" using Call_initialized [OF I] i2 by (simp add: d3_def)
        have i5: "\<not> initialized (freePtrs (freePtr d4 (ucast r)) ptrs)"
          using i4 by (simp add: freePtrs_initialized freePtr_initialized)
        have eq: "\<not> initialized x \<Longrightarrow> x\<lparr>initialized := False\<rparr> = x" for x :: Dash by simp
        have "Init d args =
         (case res of
            Inl err \<Rightarrow> Some (errors_New (''dash_init failed: '' @ Error err))
          | Inr r0 \<Rightarrow> if (ucast r0 :: int32) \<noteq> 0
                      then Some (errors_New ''dash_init returned error'') else None,
          (freePtrs (freePtr d4 (ucast r)) ptrs)
            \<lparr>initialized := (case res of Inl err \<Rightarrow> False | Inr r0 \<Rightarrow> (ucast r0 :: int32) = 0)\<rparr>)"
          using A Inr M r False ninit I [unfolded d3_def] eq [OF i5]
          by (simp add: Init_def Let_def split: sum.splits)
        then show thesis using invoked A' M' False d3_def I by blast
      qed
    qed
  qed
qed

lemma Init_initialized_iff:
  assumes "\<not> initialized d"
  shows "initialized (snd (Init d args)) \<longleftrightarrow> fst (Init d args) = None"
  using assms
proof (cases rule: Init_cases [where d = d and args = args])
  case (marshal err d1)
  with assms allocArgs_initialized [OF marshal(1)] show ?thesis by simp
next
  case (argv_call ptrs d1 err d2)
  with assms allocArgs_initialized [OF argv_call(1)] Call_initialized [OF argv_call(2)]
  show ?thesis by (simp add: freePtrs_initialized)
next
  case (argv_null ptrs d1 r d2)
  with assms allocArgs_initialized [OF argv_null(1)] Call_initialized [OF argv_null(2)]
  show ?thesis by (simp add: freePtrs_initialized)
next
  case (invoked ptrs d1 r d2 d3 res d4)
  show ?thesis by (cases res) (simp_all add: invoked(6))
qed

section \<open>The call log of the marshalling steps\<close>

lemma allocated_simps [simp]:
  "allocated [] = []"
  "allocated (c # cs) = allocation c @ allocated cs"
  "allocated (xs @ ys) = allocated xs @ allocated ys"
  by (simp_all add: allocated_def)

lemma released_simps [simp]:
  "released [] = []"
  "released (c # cs) = release c @ released cs"
  "released (xs @ ys) = released xs @ released ys"
  by (simp_all add: released_def)

lemma freePtr_calls:
  "\<exists>seg. calls (freePtr d p) = calls d @ seg \<and> (\<forall>c\<in>set seg. fst c = ''free'') \<and>
         released seg = (if p = 0 then [] else [p]) \<and> allocated seg = []"
proof (cases "p = 0")
  case True then show ?thesis by (simp add: freePtr_def)
next
  case False
  obtain r d' where C: "Call (free d) ''free'' [ucast p] d = (r, d')"
    by (cases "Call (free d) ''free'' [ucast p] d")
  have "calls (freePtr d p) = calls d @ [(''free'', [ucast p], r)]"
    using False C Call_calls [OF C] by (simp add: freePtr_def)
  moreover have "allocated [(''free'', [ucast p :: uint64], r)] = []"
    by (cases r) simp_all
  ultimately show ?thesis using False
    by (intro exI [of _ "[(''free'', [ucast p], r)]"]) (simp add: ucast_32_64_32)
qed

lemma freePtrs_calls:
  "\<exists>seg. calls (freePtrs d ps) = calls d @ seg \<and> (\<forall>c\<in>set seg. fst c = ''free'') \<and>
         released seg = filter (\<lambda>p. p \<noteq> 0) ps \<and> allocated seg = []"
proof (induction ps arbitrary: d)
  case Nil show ?case by simp
next
  case (Cons p ps)
  obtain s1 where s1: "calls (freePtr d p) = calls d @ s1" "\<forall>c\<in>set s1. fst c = ''free''"
      "released s1 = (if p = 0 then [] else [p])" "allocated s1 = []"
    using freePtr_calls [of d p] by blast
  obtain s2 where s2: "calls (freePtrs (freePtr d p) ps) = calls (freePtr d p) @ s2"
      "\<forall>c\<in>set s2. fst c = ''free''" "released s2 = filter (\<lambda>p. p \<noteq> 0) ps" "allocated s2 = []"
    using Cons.IH [of "freePtr d p"] by blast
  show ?case using s1 s2 by (intro exI [of _ "s1 @ s2"]) auto
qed

lemma allocString_Inr_calls:
  assumes "allocString d s = (Inr p, d')"
  shows "\<exists>r. calls d' = calls d @ [(''malloc'', [of_nat (length (bytes_of s) + 1)], Inr r)] \<and>
             ucast r = p \<and> p \<noteq> 0"
proof -
  obtain rm d1 where M: "Call (malloc d) ''malloc'' [of_nat (length (bytes_of s) + 1)] d = (rm, d1)"
    by (cases "Call (malloc d) ''malloc'' [of_nat (length (bytes_of s) + 1)] d")
  note c1 = Call_calls [OF M]
  show ?thesis
  proof (cases rm)
    case (Inl e)
    with assms M show ?thesis by (simp add: allocString_def Let_def)
  next
    case (Inr r)
    with assms M c1 show ?thesis
      by (auto simp: allocString_def Let_def split: if_splits prod.splits)
  qed
qed

lemma allocString_Inl_calls:
  assumes "allocString d s = (Inl e, d')"
  shows "\<exists>seg. calls d' = calls d @ seg \<and> seg \<noteq> [] \<and> (\<forall>c\<in>set seg. fst c \<in> {''malloc'', ''free''}) \<and>
             released seg = allocated seg"
proof -
  obtain rm d1 where M: "Call (malloc d) ''malloc'' [of_nat (length (bytes_of s) + 1)] d = (rm, d1)"
    by (cases "Call (malloc d) ''malloc'' [of_nat (length (bytes_of s) + 1)] d")
  note c1 = Call_calls [OF M]
  show ?thesis
  proof (cases rm)
    case (Inl e')
    with assms M c1 show ?thesis by (simp add: allocString_def Let_def)
  next
    case (Inr r)
    show ?thesis
    proof (cases "(ucast r :: uint32) = 0")
      case True
      with Inr assms M c1 show ?thesis by (simp add: allocString_def Let_def)
    next
      case False
      obtain rf d2 where F: "Call (free d1) ''free'' [ucast (ucast r :: uint32)] d1 = (rf, d2)"
        by (cases "Call (free d1) ''free'' [ucast (ucast r :: uint32)] d1")
      note c2 = Call_calls [OF F]
      have "d' = d2" using assms M Inr False F
        by (auto simp: allocString_def Let_def split: prod.splits if_splits)
      moreover have "allocated [(''free'', [ucast (ucast r :: uint32) :: uint64], rf)] = []"
        by (cases rf) simp_all
      ultimately show ?thesis using c1 c2 Inr False
        by (intro exI [of _ "[(''malloc'', [of_nat (length (bytes_of s) + 1)], Inr r),
                (''free'', [ucast (ucast r :: uint32)], rf)]"]) (simp add: ucast_32_64_32)
    qed
  qed
qed

lemma allocArgs_Inr_calls:
  "allocArgs d args ptrs = (Inr ps, d') \<Longrightarrow> 0 \<notin> set ptrs \<Longrightarrow>
     \<exists>seg. calls d' = calls d @ seg \<and> (\<forall>c\<in>set seg. fst c = ''malloc'') \<and> length seg = length args \<and>
           released seg = [] \<and> ps = ptrs @ allocated seg \<and> 0 \<notin> set ps"
proof (induction args arbitrary: d ptrs)
  case Nil then show ?case by simp
next
  case (Cons a args)
  obtain ra d1 where A: "allocString d a = (ra, d1)" by (cases "allocString d a")
  show ?case
  proof (cases ra)
    case (Inl e)
    with Cons.prems A show ?thesis by simp
  next
    case (Inr p)
    with A obtain r where r: "calls d1 = calls d @ [(''malloc'', [of_nat (length (bytes_of a) + 1)], Inr r)]"
        "ucast r = p" "p \<noteq> 0"
      using allocString_Inr_calls by blast
    from Cons.prems A Inr have rec: "allocArgs d1 args (ptrs @ [p]) = (Inr ps, d')" by simp
    have "0 \<notin> set (ptrs @ [p])" using Cons.prems(2) r(3) by auto
    from Cons.IH [OF rec this] obtain s2 where s2: "calls d' = calls d1 @ s2"
        "\<forall>c\<in>set s2. fst c = ''malloc''" "length s2 = length args" "released s2 = []"
        "ps = (ptrs @ [p]) @ allocated s2" "0 \<notin> set ps"
      by blast
    show ?thesis using r s2
      by (intro exI [of _ "(''malloc'', [of_nat (length (bytes_of a) + 1)], Inr r) # s2"]) auto
  qed
qed

lemma allocArgs_Inl_calls:
  "allocArgs d args ptrs = (Inl e, d') \<Longrightarrow> 0 \<notin> set ptrs \<Longrightarrow>
     \<exists>seg. calls d' = calls d @ seg \<and> seg \<noteq> [] \<and> (\<forall>c\<in>set seg. fst c \<in> {''malloc'', ''free''}) \<and>
           mset (released seg) = mset ptrs + mset (allocated seg)"
proof (induction args arbitrary: d ptrs)
  case Nil then show ?case by simp
next
  case (Cons a args)
  obtain ra d1 where A: "allocString d a = (ra, d1)" by (cases "allocString d a")
  show ?case
  proof (cases ra)
    case (Inl e')
    with A obtain s1 where s1: "calls d1 = calls d @ s1" "s1 \<noteq> []"
        "\<forall>c\<in>set s1. fst c \<in> {''malloc'', ''free''}" "released s1 = allocated s1"
      using allocString_Inl_calls by blast
    obtain s2 where s2: "calls (freePtrs d1 ptrs) = calls d1 @ s2" "\<forall>c\<in>set s2. fst c = ''free''"
        "released s2 = filter (\<lambda>p. p \<noteq> 0) ptrs" "allocated s2 = []"
      using freePtrs_calls [of d1 ptrs] by blast
    have f: "filter (\<lambda>p. p \<noteq> 0) ptrs = ptrs" using Cons.prems(2) by (induction ptrs) auto
    from Cons.prems A Inl have "d' = freePtrs d1 ptrs" by simp
    then show ?thesis using s1 s2 f
      by (intro exI [of _ "s1 @ s2"]) auto
  next
    case (Inr p)
    with A obtain r where r: "calls d1 = calls d @ [(''malloc'', [of_nat (length (bytes_of a) + 1)], Inr r)]"
        "ucast r = p" "p \<noteq> 0"
      using allocString_Inr_calls by blast
    from Cons.prems A Inr have rec: "allocArgs d1 args (ptrs @ [p]) = (Inl e, d')" by simp
    have "0 \<notin> set (ptrs @ [p])" using Cons.prems(2) r(3) by auto
    from Cons.IH [OF rec this] obtain s2 where s2: "calls d' = calls d1 @ s2"
        "\<forall>c\<in>set s2. fst c \<in> {''malloc'', ''free''}"
        "mset (released s2) = mset (ptrs @ [p]) + mset (allocated s2)"
      by blast
    show ?thesis using r s2
      by (intro exI [of _ "(''malloc'', [of_nat (length (bytes_of a) + 1)], Inr r) # s2"]) auto
  qed
qed


lemma filter_nonzero: "0 \<notin> set ps \<Longrightarrow> filter (\<lambda>p. p \<noteq> (0::uint32)) ps = ps"
  by (induction ps) auto

lemma released_mallocs: "\<forall>c\<in>set cs. fst c = ''malloc'' \<Longrightarrow> released cs = []"
  by (induction cs) auto

lemma allocated_frees: "\<forall>c\<in>set cs. fst c = ''free'' \<Longrightarrow> allocated cs = []"
proof (induction cs)
  case Nil
  show ?case by simp
next
  case (Cons c cs)
  obtain n a r where c: "c = (n, a, r)" by (cases c)
  with Cons show ?case by (cases r) auto
qed

lemma split_unique:
  "pre @ c # post = pre0 @ c0 # post0 \<Longrightarrow> P c \<Longrightarrow> \<forall>x\<in>set pre0. \<not> P x \<Longrightarrow>
   \<forall>x\<in>set post0. \<not> P x \<Longrightarrow> pre = pre0 \<and> c = c0 \<and> post = post0"
  by (induction pre0 arbitrary: pre) (auto simp: Cons_eq_append_conv append_eq_Cons_conv)

text \<open>
  The log of one \<open>Init\<close> on a session that is not initialised. Either the init export
  was not reached: then the call failed, and its log consists of allocator calls in
  which every allocation is matched by a release. Or the log is a run of \<open>malloc\<close>
  calls, the one call of \<open>dash_init\<close>, and a run of \<open>free\<close> calls releasing exactly what
  was allocated; the call succeeds, and sets the flag, exactly when the export answered 0.
\<close>

lemma Init_calls:
  assumes ninit: "\<not> initialized d"
  shows "(\<exists>seg. calls (snd (Init d args)) = calls d @ seg \<and> seg \<noteq> [] \<and>
            (\<forall>c\<in>set seg. fst c \<in> {''malloc'', ''free''}) \<and>
            mset (released seg) = mset (allocated seg) \<and>
            fst (Init d args) \<noteq> None) \<or>
         (\<exists>pre a res post.
            calls (snd (Init d args)) = calls d @ pre @ (''dash_init'', a, res) # post \<and>
            (\<forall>c\<in>set pre. fst c = ''malloc'') \<and> (\<forall>c\<in>set post. fst c = ''free'') \<and>
            mset (released post) = mset (allocated pre) \<and>
            (fst (Init d args) = None \<longleftrightarrow> (\<exists>r0. res = Inr r0 \<and> (ucast r0 :: int32) = 0)) \<and>
            (initialized (snd (Init d args)) \<longleftrightarrow> fst (Init d args) = None))"
  using ninit
proof (cases rule: Init_cases [where d = d and args = args])
  case (marshal err d1)
  from allocArgs_Inl_calls [OF marshal(1)] obtain seg where
    "calls d1 = calls d @ seg" "seg \<noteq> []" "\<forall>c\<in>set seg. fst c \<in> {''malloc'', ''free''}"
    "mset (released seg) = mset (allocated seg)" by auto
  then show ?thesis using marshal(2) by (intro disjI1 exI [of _ seg]) simp
next
  case (argv_call ptrs d1 err d2)
  from allocArgs_Inr_calls [OF argv_call(1)] obtain s1 where s1:
    "calls d1 = calls d @ s1" "\<forall>c\<in>set s1. fst c = ''malloc''" "released s1 = []"
    "ptrs = allocated s1" "0 \<notin> set ptrs" by auto
  note c2 = Call_calls [OF argv_call(2)]
  obtain s3 where s3: "calls (freePtrs d2 ptrs) = calls d2 @ s3" "\<forall>c\<in>set s3. fst c = ''free''"
    "released s3 = filter (\<lambda>p. p \<noteq> 0) ptrs" "allocated s3 = []"
    using freePtrs_calls [of d2 ptrs] by blast
  let ?m = "(''malloc'', [of_nat (length (if length args = 0 then [''dash''] else args) * 4)],
             Inl err) :: call"
  show ?thesis using s1 c2 s3 argv_call(3) filter_nonzero [OF s1(5)]
    by (intro disjI1 exI [of _ "s1 @ ?m # s3"]) auto
next
  case (argv_null ptrs d1 r d2)
  from allocArgs_Inr_calls [OF argv_null(1)] obtain s1 where s1:
    "calls d1 = calls d @ s1" "\<forall>c\<in>set s1. fst c = ''malloc''" "released s1 = []"
    "ptrs = allocated s1" "0 \<notin> set ptrs" by auto
  note c2 = Call_calls [OF argv_null(2)]
  obtain s3 where s3: "calls (freePtrs d2 ptrs) = calls d2 @ s3" "\<forall>c\<in>set s3. fst c = ''free''"
    "released s3 = filter (\<lambda>p. p \<noteq> 0) ptrs" "allocated s3 = []"
    using freePtrs_calls [of d2 ptrs] by blast
  let ?m = "(''malloc'', [of_nat (length (if length args = 0 then [''dash''] else args) * 4)],
             Inr r) :: call"
  show ?thesis using s1 c2 s3 argv_null(3,4) filter_nonzero [OF s1(5)]
    by (intro disjI1 exI [of _ "s1 @ ?m # s3"]) auto
next
  case (invoked ptrs d1 r d2 d3 res d4)
  from allocArgs_Inr_calls [OF invoked(1)] obtain s1 where s1:
    "calls d1 = calls d @ s1" "\<forall>c\<in>set s1. fst c = ''malloc''" "released s1 = []"
    "ptrs = allocated s1" "0 \<notin> set ptrs" by auto
  note c2 = Call_calls [OF invoked(2)]
  have c3: "calls d3 = calls d2" by (simp add: invoked(4))
  note c4 = Call_calls [OF invoked(5)]
  obtain s5 where s5: "calls (freePtr d4 (ucast r)) = calls d4 @ s5"
    "\<forall>c\<in>set s5. fst c = ''free''" "released s5 = [ucast r]" "allocated s5 = []"
    using freePtr_calls [of d4 "ucast r"] invoked(3) by auto
  obtain s6 where s6:
    "calls (freePtrs (freePtr d4 (ucast r)) ptrs) = calls (freePtr d4 (ucast r)) @ s6"
    "\<forall>c\<in>set s6. fst c = ''free''"
    "released s6 = filter (\<lambda>p. p \<noteq> 0) ptrs" "allocated s6 = []"
    using freePtrs_calls [of "freePtr d4 (ucast r)" ptrs] by blast
  let ?argc = "length (if length args = 0 then [''dash''] else args)"
  let ?m = "(''malloc'', [of_nat (?argc * 4)], Inr r) :: call"
  let ?a = "[of_nat ?argc, ucast (ucast r :: uint32)] :: uint64 list"
  have tr: "calls (snd (Init d args)) = calls d @ (s1 @ [?m]) @ (''dash_init'', ?a, res) # (s5 @ s6)"
    using s1(1) c2 c3 c4 s5(1) s6(1) by (simp add: invoked(6))
  have rel: "mset (released (s5 @ s6)) = mset (allocated (s1 @ [?m]))"
    using s1 s5 s6 invoked(3) filter_nonzero [OF s1(5)] by simp
  have ok: "fst (Init d args) = None \<longleftrightarrow> (\<exists>r0. res = Inr r0 \<and> (ucast r0 :: int32) = 0)"
    by (cases res) (simp_all add: invoked(6))
  have ini: "initialized (snd (Init d args)) \<longleftrightarrow> fst (Init d args) = None"
    by (cases res) (simp_all add: invoked(6))
  show ?thesis
    apply (rule disjI2)
    apply (rule exI [of _ "s1 @ [?m]"])
    apply (rule exI [of _ ?a])
    apply (rule exI [of _ res])
    apply (rule exI [of _ "s5 @ s6"])
    using tr rel ok ini s1(2) s5(2) s6(2) by auto
qed

lemma Init_proceeds:
  assumes "\<not> initialized d"
  shows "calls (snd (Init d args)) \<noteq> calls d"
  using Init_calls [OF assms, of args] by auto

section \<open>Reading a string back\<close>

lemma of_char_nat_eq_0: "(of_char c :: nat) = 0 \<longleftrightarrow> c = CHR 0x00"
  by (cases c) simp

lemma byte_of_char_eq_0: "(of_nat (of_char c) :: byte) = 0 \<longleftrightarrow> c = CHR 0x00"
proof -
  have "(of_nat (of_char c) :: byte) = 0 \<longleftrightarrow> unat (of_nat (of_char c) :: byte) = 0"
    by (simp add: unat_eq_0)
  also have "\<dots> \<longleftrightarrow> (of_char c :: nat) = 0" by (simp add: unat_of_nat)
  finally show ?thesis by (simp add: of_char_nat_eq_0)
qed

lemma string_of_bytes_of: "string_of (bytes_of s) = s"
  by (induction s) (simp_all add: string_of_def bytes_of_def unat_of_nat)

lemma bytes_of_no_null: "CHR 0x00 \<notin> set s \<Longrightarrow> 0 \<notin> set (bytes_of s)"
  by (auto simp: bytes_of_def byte_of_char_eq_0)

text \<open>
  Scanning a memory of at most \<open>2 ^ 32\<close> bytes that holds the non-zero bytes \<open>bs\<close> at
  \<open>p\<close>, followed by a zero byte, yields \<open>bs\<close>: the counter does not wrap before the
  terminator is met.
\<close>

lemma scan_cstring:
  assumes holds: "\<forall>i<length bs. mem ! (unat p + i) = bs ! i"
    and inside: "unat p + length bs < length mem"
    and zero: "mem ! (unat p + length bs) = 0"
    and nz: "0 \<notin> set bs"
    and size: "length mem \<le> 2 ^ 32"
  shows "k \<le> length bs \<Longrightarrow> scan mem p (of_nat k) acc = Some (acc @ drop k bs)"
proof (induction "length bs - k" arbitrary: k acc)
  case 0
  then have k: "k = length bs" by simp
  have u: "unat (p + of_nat k) = unat p + k"
    using inside size k by (simp add: unat_word_ariths unat_of_nat)
  show ?case
    by (subst scan.simps) (use u k inside zero in \<open>simp add: ReadByte_def hasSize_def\<close>)
next
  case (Suc n)
  then have k: "k < length bs" by simp
  have u: "unat (p + of_nat k) = unat p + k"
    using inside size k by (simp add: unat_word_ariths unat_of_nat)
  have b: "mem ! (unat p + k) = bs ! k" using holds k by simp
  have bnz: "bs ! k \<noteq> 0" using nz k by (metis nth_mem)
  have "scan mem p (of_nat k) acc = scan mem p (of_nat (Suc k)) (acc @ [bs ! k])"
    by (subst scan.simps)
      (use u k inside b bnz in \<open>simp add: ReadByte_def hasSize_def add.commute\<close>)
  also have "\<dots> = Some ((acc @ [bs ! k]) @ drop (Suc k) bs)"
    using Suc by (intro Suc.hyps(1)) simp_all
  also have "(acc @ [bs ! k]) @ drop (Suc k) bs = acc @ drop k bs"
    using k by (simp add: Cons_nth_drop_Suc)
  finally show ?case .
qed

lemma allocString_Inr_memory:
  assumes "allocString d s = (Inr p, d')"
  shows "\<exists>buf. Write buf p (bytes_of s @ [0]) = (Memory (mod' d'), True)"
proof -
  obtain rm d1 where M: "Call (malloc d) ''malloc'' [of_nat (length (bytes_of s) + 1)] d = (rm, d1)"
    by (cases "Call (malloc d) ''malloc'' [of_nat (length (bytes_of s) + 1)] d")
  show ?thesis
  proof (cases rm)
    case (Inl e)
    with assms M show ?thesis by (simp add: allocString_def Let_def)
  next
    case (Inr r)
    obtain buf ok where W: "Write (Memory (mod' d1)) (ucast r) (bytes_of s @ [0]) = (buf, ok)"
      by (cases "Write (Memory (mod' d1)) (ucast r) (bytes_of s @ [0])")
    from assms M Inr W have "ok" "p = ucast r" "Memory (mod' d') = buf"
      by (auto simp: allocString_def Let_def split: if_splits)
    with W show ?thesis by auto
  qed
qed

text \<open>
  C1. For a host string \<open>s\<close> without a null byte: when \<open>allocString\<close> succeeds with the
  guest address \<open>p\<close>, \<open>readCString\<close> at \<open>p\<close> returns, and returns \<open>s\<close>. The memory is a
  wasm32 linear memory, of at most \<open>2 ^ 32\<close> bytes.
\<close>

theorem allocString_readCString_roundtrip:
  assumes alloc: "fst (allocString d s) = Inr p"
    and nonull: "CHR 0x00 \<notin> set s"
    and size: "length (Memory (mod' (snd (allocString d s)))) \<le> 2 ^ 32"
  shows "readCString (snd (allocString d s)) p = Some s"
proof -
  let ?d' = "snd (allocString d s)"
  let ?mem = "Memory (mod' ?d')"
  let ?bs = "bytes_of s"
  from alloc have "allocString d s = (Inr p, ?d')" by (metis prod.collapse)
  then obtain buf where W: "Write buf p (?bs @ [0]) = (?mem, True)"
    using allocString_Inr_memory by blast
  have a: "\<forall>i<length ?bs. ?mem ! (unat p + i) = ?bs ! i"
    using Write_nth(1) [OF W] by (simp add: nth_append)
  have b: "?mem ! (unat p + length ?bs) = 0"
    using Write_nth(1) [OF W, of "length ?bs"] by simp
  have c: "unat p + length ?bs < length ?mem"
    using Write_nth(2) [OF W, of 0] by simp
  have "scan ?mem p (of_nat 0) [] = Some ([] @ drop 0 ?bs)"
    using a c b bytes_of_no_null [OF nonull] size by (rule scan_cstring) simp
  then show ?thesis by (simp add: readCString_def string_of_bytes_of)
qed

theorem allocString_readCString_roundtrip_witness:
  "fst (allocString session0 ''hi'') = Inr 16384 \<and> CHR 0x00 \<notin> set ''hi'' \<and>
   length (Memory (mod' (snd (allocString session0 ''hi'')))) \<le> 2 ^ 32 \<and>
   readCString (snd (allocString session0 ''hi'')) 16384 = Some ''hi''"
  using allocString_readCString_roundtrip [of session0 "''hi''" 16384]
  by (simp add: session0_def module0_def page_def allocString_def Call_def stub_def
        bytes_of_def Write_def hasSize_def Let_def)

text \<open>
  C4, as the code has it. The null check is made by \<open>GetVar\<close>, before \<open>readCString\<close> is
  called: when the guest's get-variable export answers the null address, \<open>GetVar\<close>
  yields the empty string and no error without reading guest memory, whatever it
  holds. \<open>readCString\<close> itself scans from whatever address it is given.
\<close>

theorem GetVar_null_is_unset:
  assumes "initialized d" and "dashGetVar d = Some f"
    and "fst (allocString d name) = Inr namePtr"
    and "fst (Call f ''dash_getvar'' [ucast namePtr] (snd (allocString d name))) = Inr r"
    and "(ucast r :: uint32) = 0"
  shows "GetVar d name =
           Some (('''', None),
                 freePtr (snd (Call f ''dash_getvar'' [ucast namePtr] (snd (allocString d name))))
                   namePtr)"
proof -
  obtain d1 where A: "allocString d name = (Inr namePtr, d1)"
    using assms(3) by (cases "allocString d name") simp
  obtain d2 where C: "Call f ''dash_getvar'' [ucast namePtr] d1 = (Inr r, d2)"
    using assms(4) A by (cases "Call f ''dash_getvar'' [ucast namePtr] d1") simp
  show ?thesis
    unfolding GetVar_def using assms(1,2,5) A C by (simp add: Let_def)
qed

theorem GetVar_null_is_unset_witness:
  "initialized (session0\<lparr>initialized := True\<rparr>) \<and>
   dashGetVar (session0\<lparr>initialized := True\<rparr>) = Some (stub 0) \<and>
   fst (allocString (session0\<lparr>initialized := True\<rparr>) ''HOME'') = Inr 16384 \<and>
   fst (Call (stub 0) ''dash_getvar'' [16384]
          (snd (allocString (session0\<lparr>initialized := True\<rparr>) ''HOME''))) = Inr 0 \<and>
   (ucast (0 :: uint64) :: uint32) = 0 \<and>
   fst (the (GetVar (session0\<lparr>initialized := True\<rparr>) ''HOME'')) = ('''', None)"
  using GetVar_null_is_unset [of "session0\<lparr>initialized := True\<rparr>" "stub 0" "''HOME''" 16384 0]
  by (simp add: session0_def module0_def page_def allocString_def Call_def stub_def
        bytes_of_def Write_def hasSize_def Let_def)

text \<open>
  Stated of \<open>readCString\<close> the property fails: in a one-page memory that starts with
  the bytes of "hi" followed by zeros, \<open>readCString\<close> at address 0 returns "hi", not the
  empty string.
\<close>

theorem readCString_null_reads_memory:
  "readCString (session0\<lparr>mod' := module0\<lparr>Memory := 0x68 # 0x69 # replicate 65534 0\<rparr>\<rparr>) 0
     = Some ''hi'' \<and>
   readCString (session0\<lparr>mod' := module0\<lparr>Memory := 0x68 # 0x69 # replicate 65534 0\<rparr>\<rparr>) 0
     \<noteq> Some ''''"
proof -
  let ?mem = "0x68 # 0x69 # replicate 65534 (0 :: byte)"
  have "scan ?mem 0 0 [] = scan ?mem 0 1 [0x68]"
    by (subst scan.simps) (simp add: ReadByte_def hasSize_def)
  also have "\<dots> = scan ?mem 0 2 [0x68, 0x69]"
    by (subst scan.simps) (simp add: ReadByte_def hasSize_def)
  also have "\<dots> = Some [0x68, 0x69]"
    by (subst scan.simps) (simp add: ReadByte_def hasSize_def)
  finally have sc: "scan ?mem 0 0 [] = Some [0x68, 0x69]" .
  have ch: "char_of (0x68 :: nat) = CHR ''h''" "char_of (0x69 :: nat) = CHR ''i''"
    by code_simp+
  show ?thesis
    using sc ch by (simp add: readCString_def string_of_def)
qed

section \<open>Lifecycle of the session\<close>

lemma not_initialized_ops:
  assumes "\<not> initialized d"
  shows "Eval d cmd = ((- 1, Some (errors_New ''dash not initialized'')), d)"
    and "GetVar d name = Some (('''', Some (errors_New ''dash not initialized'')), d)"
    and "SetVar d name val = (Some (errors_New ''dash not initialized''), d)"
    and "GetExitStatus d = ((- 1, Some (errors_New ''dash not initialized'')), d)"
  using assms by (simp_all add: Eval_def GetVar_def SetVar_def GetExitStatus_def)

text \<open>
  C5. On a session whose \<open>Init\<close> has not succeeded, \<open>Eval\<close>, \<open>GetVar\<close>, \<open>SetVar\<close> and
  \<open>GetExitStatus\<close> each fail with the not-initialized error; on an initialised session
  \<open>Init\<close> fails with the already-initialized error. In each case the session, its
  guest memory and its call log included, is returned as it was.
\<close>

theorem lifecycle_guards:
  "(\<not> initialized d \<longrightarrow>
      Eval d cmd = ((- 1, Some (errors_New ''dash not initialized'')), d) \<and>
      GetVar d name = Some (('''', Some (errors_New ''dash not initialized'')), d) \<and>
      SetVar d name val = (Some (errors_New ''dash not initialized''), d) \<and>
      GetExitStatus d = ((- 1, Some (errors_New ''dash not initialized'')), d)) \<and>
   (initialized d \<longrightarrow> Init d args = (Some (errors_New ''dash already initialized''), d))"
  by (simp add: not_initialized_ops Init_def)

theorem lifecycle_guards_witness:
  "\<not> initialized session0 \<and>
   Eval session0 ''true'' = ((- 1, Some (errors_New ''dash not initialized'')), session0) \<and>
   GetVar session0 ''HOME'' = Some (('''', Some (errors_New ''dash not initialized'')), session0) \<and>
   SetVar session0 ''HOME'' ''v'' = (Some (errors_New ''dash not initialized''), session0) \<and>
   GetExitStatus session0 = ((- 1, Some (errors_New ''dash not initialized'')), session0) \<and>
   initialized (session0\<lparr>initialized := True\<rparr>) \<and>
   Init (session0\<lparr>initialized := True\<rparr>) [''dash'', ''-e'']
     = (Some (errors_New ''dash already initialized''), session0\<lparr>initialized := True\<rparr>)"
  using lifecycle_guards
          [where d = session0 and cmd = "''true''" and name = "''HOME''" and val = "''v''"]
        lifecycle_guards
          [where d = "session0\<lparr>initialized := True\<rparr>" and args = "[''dash'', ''-e'']"]
  by (simp add: session0_def)

text \<open>
  C6. In the calls one \<open>Init\<close> makes, every allocation is matched by exactly one
  release, on every path: the pointers released are, with multiplicity, the pointers
  allocated. When the call reaches the guest's init export, nothing has been released
  before that invocation, nothing is allocated after it, and what is released after it
  is exactly the argv array and the argument strings allocated before it.
\<close>

theorem Init_releases_every_allocation:
  "\<exists>seg. calls (snd (Init d args)) = calls d @ seg \<and>
         mset (released seg) = mset (allocated seg) \<and>
         (\<forall>pre c post. seg = pre @ c # post \<and> fst c = ''dash_init'' \<longrightarrow>
            released pre = [] \<and> allocated post = [] \<and>
            mset (released post) = mset (allocated pre))"
proof (cases "initialized d")
  case True
  then have "calls (snd (Init d args)) = calls d @ []" by (simp add: Init_def)
  then show ?thesis by (intro exI [of _ "[]"]) simp
next
  case False
  from Init_calls [OF False, of args] show ?thesis
  proof (elim disjE exE conjE)
    fix seg
    assume seg: "calls (snd (Init d args)) = calls d @ seg"
      "\<forall>c\<in>set seg. fst c \<in> {''malloc'', ''free''}"
      "mset (released seg) = mset (allocated seg)"
    have "\<not> (seg = pre @ c # post \<and> fst c = ''dash_init'')" for pre c post
      using seg(2) by auto
    with seg show ?thesis by (intro exI [of _ seg]) blast
  next
    fix pre0 a res post0
    assume tr: "calls (snd (Init d args)) = calls d @ pre0 @ (''dash_init'', a, res) # post0"
      and pre0: "\<forall>c\<in>set pre0. fst c = ''malloc''"
      and post0: "\<forall>c\<in>set post0. fst c = ''free''"
      and bal: "mset (released post0) = mset (allocated pre0)"
    let ?c0 = "(''dash_init'', a, res) :: call"
    have rp: "released pre0 = []" using pre0 by (rule released_mallocs)
    have ap: "allocated post0 = []" using post0 by (rule allocated_frees)
    have c0: "release ?c0 = []" "allocation ?c0 = []" by (cases res; simp)+
    have whole: "mset (released (pre0 @ ?c0 # post0)) = mset (allocated (pre0 @ ?c0 # post0))"
      using rp ap c0 bal by simp
    have uniq: "pre = pre0 \<and> c = ?c0 \<and> post = post0"
      if "pre0 @ ?c0 # post0 = pre @ c # post" "fst c = ''dash_init''" for pre c post
      using split_unique [where P = "\<lambda>c. fst c = ''dash_init''", OF that(1) [symmetric] that(2)]
        pre0 post0 by simp
    show ?thesis
      using tr whole uniq rp ap bal by (intro exI [of _ "pre0 @ ?c0 # post0"]) blast
  qed
qed

theorem Init_releases_every_allocation_witness:
  "calls (snd (Init session0 [''dash'', ''-e''])) =
     [(''malloc'', [5], Inr 16384), (''malloc'', [3], Inr 16384), (''malloc'', [8], Inr 16384),
      (''dash_init'', [2, 16384], Inr 0),
      (''free'', [16384], Inr 0), (''free'', [16384], Inr 0), (''free'', [16384], Inr 0)] \<and>
   (\<exists>seg. calls (snd (Init session0 [''dash'', ''-e''])) = calls session0 @ seg \<and>
          mset (released seg) = mset (allocated seg) \<and>
          (\<forall>pre c post. seg = pre @ c # post \<and> fst c = ''dash_init'' \<longrightarrow>
             released pre = [] \<and> allocated post = [] \<and>
             mset (released post) = mset (allocated pre)))"
proof
  show "calls (snd (Init session0 [''dash'', ''-e''])) =
     [(''malloc'', [5], Inr 16384), (''malloc'', [3], Inr 16384), (''malloc'', [8], Inr 16384),
      (''dash_init'', [2, 16384], Inr 0),
      (''free'', [16384], Inr 0), (''free'', [16384], Inr 0), (''free'', [16384], Inr 0)]"
    by (simp add: Init_def allocString_def Call_def stub_def bytes_of_def Write_def hasSize_def
          Let_def WriteUint32Le_def freePtr_def session0_def module0_def page_def)
  show "\<exists>seg. calls (snd (Init session0 [''dash'', ''-e''])) = calls session0 @ seg \<and>
          mset (released seg) = mset (allocated seg) \<and>
          (\<forall>pre c post. seg = pre @ c # post \<and> fst c = ''dash_init'' \<longrightarrow>
             released pre = [] \<and> allocated post = [] \<and>
             mset (released post) = mset (allocated pre))"
    by (rule Init_releases_every_allocation)
qed

text \<open>
  C8. The first \<open>Close\<close> of an initialised session invokes the guest's destroy export
  once, and whatever that call answers, an error included, the session is marked
  uninitialised and the instance released. A second \<open>Close\<close> then invokes nothing,
  reports no error, and returns the session exactly as the first left it.
\<close>

theorem Close_idempotent:
  assumes "initialized d"
  shows "calls (snd (Close d)) =
           calls d @ [(''dash_destroy'', [], fst (Call (dashDestroy d) ''dash_destroy'' [] d))] \<and>
         \<not> initialized (snd (Close d)) \<and>
         closed (mod' (snd (Close d))) \<and>
         Close (snd (Close d)) = (None, snd (Close d))"
proof -
  obtain r d1 where C: "Call (dashDestroy d) ''dash_destroy'' [] d = (r, d1)"
    by (cases "Call (dashDestroy d) ''dash_destroy'' [] d")
  have 1: "Close d = (None, d1\<lparr>initialized := False, mod' := (mod' d1)\<lparr>closed := True\<rparr>\<rparr>)"
    using assms C by (simp add: Close_def mod_Close_def Let_def)
  have 2: "Close (d1\<lparr>initialized := False, mod' := (mod' d1)\<lparr>closed := True\<rparr>\<rparr>)
            = (None, d1\<lparr>initialized := False, mod' := (mod' d1)\<lparr>closed := True\<rparr>\<rparr>)"
    by (simp add: Close_def mod_Close_def Let_def)
  show ?thesis using 1 2 C Call_calls [OF C] by simp
qed

theorem Close_idempotent_witness:
  "initialized (session0\<lparr>initialized := True, dashDestroy := (\<lambda>args ms. (Inl (call_error ''trap''), ms))\<rparr>) \<and>
   calls (snd (Close (session0\<lparr>initialized := True,
            dashDestroy := (\<lambda>args ms. (Inl (call_error ''trap''), ms))\<rparr>)))
     = [(''dash_destroy'', [], Inl (call_error ''trap''))] \<and>
   \<not> initialized (snd (Close (session0\<lparr>initialized := True,
            dashDestroy := (\<lambda>args ms. (Inl (call_error ''trap''), ms))\<rparr>))) \<and>
   calls (snd (Close (snd (Close (session0\<lparr>initialized := True,
            dashDestroy := (\<lambda>args ms. (Inl (call_error ''trap''), ms))\<rparr>)))))
     = [(''dash_destroy'', [], Inl (call_error ''trap''))]"
  using Close_idempotent [of "session0\<lparr>initialized := True,
            dashDestroy := (\<lambda>args ms. (Inl (call_error ''trap''), ms))\<rparr>"]
  by (simp add: session0_def Call_def)

text \<open>
  C9. When \<open>Init\<close> on a session that is not initialised returns an error, whichever
  step failed, the session is still not initialised afterwards: \<open>Eval\<close>, \<open>GetVar\<close>,
  \<open>SetVar\<close> and \<open>GetExitStatus\<close> still fail with the not-initialized error, and a
  further \<open>Init\<close> is not turned away but goes on to call the guest. The flag is set only
  by an \<open>Init\<close> that returns no error, and then the guest's init export has been
  invoked and has answered 0.
\<close>

theorem Init_failure_stays_uninitialized:
  assumes "\<not> initialized d"
  shows "(fst (Init d args) \<noteq> None \<longrightarrow>
            \<not> initialized (snd (Init d args)) \<and>
            Eval (snd (Init d args)) cmd
              = ((- 1, Some (errors_New ''dash not initialized'')), snd (Init d args)) \<and>
            GetVar (snd (Init d args)) name
              = Some (('''', Some (errors_New ''dash not initialized'')), snd (Init d args)) \<and>
            SetVar (snd (Init d args)) name val
              = (Some (errors_New ''dash not initialized''), snd (Init d args)) \<and>
            GetExitStatus (snd (Init d args))
              = ((- 1, Some (errors_New ''dash not initialized'')), snd (Init d args)) \<and>
            calls (snd (Init (snd (Init d args)) args')) \<noteq> calls (snd (Init d args))) \<and>
         (initialized (snd (Init d args)) \<longrightarrow>
            fst (Init d args) = None \<and>
            (\<exists>pre a r0 post.
               calls (snd (Init d args)) = calls d @ pre @ (''dash_init'', a, Inr r0) # post \<and>
               (ucast r0 :: int32) = 0))"
proof (intro conjI impI)
  assume "fst (Init d args) \<noteq> None"
  then show n: "\<not> initialized (snd (Init d args))"
    using Init_initialized_iff [OF assms] by simp
  from n show "Eval (snd (Init d args)) cmd
      = ((- 1, Some (errors_New ''dash not initialized'')), snd (Init d args))"
    by (rule not_initialized_ops)
  from n show "GetVar (snd (Init d args)) name
      = Some (('''', Some (errors_New ''dash not initialized'')), snd (Init d args))"
    by (rule not_initialized_ops)
  from n show "SetVar (snd (Init d args)) name val
      = (Some (errors_New ''dash not initialized''), snd (Init d args))"
    by (rule not_initialized_ops)
  from n show "GetExitStatus (snd (Init d args))
      = ((- 1, Some (errors_New ''dash not initialized'')), snd (Init d args))"
    by (rule not_initialized_ops)
  from n show "calls (snd (Init (snd (Init d args)) args')) \<noteq> calls (snd (Init d args))"
    by (rule Init_proceeds)
next
  assume i: "initialized (snd (Init d args))"
  then show ok: "fst (Init d args) = None"
    using Init_initialized_iff [OF assms] by simp
  from Init_calls [OF assms, of args] ok
  show "\<exists>pre a r0 post.
          calls (snd (Init d args)) = calls d @ pre @ (''dash_init'', a, Inr r0) # post \<and>
          (ucast r0 :: int32) = 0"
    by blast
qed

theorem Init_failure_stays_uninitialized_witness:
  "\<not> initialized (session0\<lparr>dashInit := stub 0xFFFFFFFF\<rparr>) \<and>
   fst (Init (session0\<lparr>dashInit := stub 0xFFFFFFFF\<rparr>) [])
     = Some (errors_New ''dash_init returned error'') \<and>
   \<not> initialized (snd (Init (session0\<lparr>dashInit := stub 0xFFFFFFFF\<rparr>) [])) \<and>
   fst (Eval (snd (Init (session0\<lparr>dashInit := stub 0xFFFFFFFF\<rparr>) [])) ''true'')
     = (- 1, Some (errors_New ''dash not initialized'')) \<and>
   \<not> initialized session0 \<and>
   initialized (snd (Init session0 [])) \<and>
   fst (Init session0 []) = None"
  using Init_failure_stays_uninitialized
          [where d = "session0\<lparr>dashInit := stub 0xFFFFFFFF\<rparr>" and args = "[]"
             and cmd = "''true''"]
        Init_failure_stays_uninitialized [where d = session0 and args = "[]"]
  by (simp add: Init_def allocString_def Call_def stub_def bytes_of_def Write_def hasSize_def
        Let_def WriteUint32Le_def freePtr_def session0_def module0_def page_def)

end
